theory Spec2Isabelle
  imports Complex_Main "HOL-Library.Sublist"
begin

section \<open>Python values used by the classification pipeline\<close>

text \<open>
  Python strings are sequences of code points. The embedding represents a string as a
  \<^typ>\<open>string\<close> whose characters are the code points below 256 (Latin-1); every keyword and
  category name of the source lies in that range. A non-ASCII letter is written by its
  code point, for example \<open>CHR 0xED\<close> for i-acute. Python integers are \<^typ>\<open>int\<close>, floats
  are read as the real numbers they denote (no NaN), and every exception the modelled
  code can raise is a value of \<open>py_error\<close>.
\<close>

datatype py_error =
    ValueError
  | StopIteration
  | IndexError
  | ZeroDivisionError
  | DecodeError
  | ProviderError string

text \<open>\<open>str.isspace\<close> and \<open>str.lower\<close> on code points below 256.\<close>

definition py_isspace :: "char \<Rightarrow> bool" where
  "py_isspace c =
     (let n = (of_char c :: nat)
      in (9 \<le> n \<and> n \<le> 13) \<or> (28 \<le> n \<and> n \<le> 32) \<or> n = 133 \<or> n = 160)"

definition lower_char :: "char \<Rightarrow> char" where
  "lower_char c =
     (let n = (of_char c :: nat)
      in if (65 \<le> n \<and> n \<le> 90) \<or> (192 \<le> n \<and> n \<le> 222 \<and> n \<noteq> 215)
         then char_of (n + 32) else c)"

definition py_lower :: "string \<Rightarrow> string" where
  "py_lower s = map lower_char s"

definition py_strip :: "string \<Rightarrow> string" where
  "py_strip s = rev (dropWhile py_isspace (rev (dropWhile py_isspace s)))"

text \<open>\<open>k in t\<close> for strings: \<open>k\<close> occurs in \<open>t\<close> as a contiguous substring.\<close>

fun str_in :: "string \<Rightarrow> string \<Rightarrow> bool" where
  "str_in k [] = (k = [])"
| "str_in k (c # t) = (prefix k (c # t) \<or> str_in k t)"

text \<open>\<open>sep.join(xs)\<close>.\<close>

fun join :: "string \<Rightarrow> string list \<Rightarrow> string" where
  "join sep [] = []"
| "join sep [x] = x"
| "join sep (x # y # ys) = x @ sep @ join sep (y # ys)"

text \<open>Truthiness of an optional string: \<open>None\<close> and the empty string are false.\<close>

definition truthy :: "string option \<Rightarrow> bool" where
  "truthy s = (case s of None \<Rightarrow> False | Some t \<Rightarrow> t \<noteq> [])"

section \<open>Data model\<close>

text \<open>
  A bounding box is the dict \<open>{x, y, w, h}\<close>. A detected object is a dict whose keys may
  be absent; an absent key is \<open>None\<close>. The detector always sets \<open>name\<close>, \<open>confidence\<close> and
  \<open>bbox\<close>, and sets \<open>crop_url\<close> and \<open>caption\<close> for the objects that got a crop.
\<close>

record bbox =
  box_x :: int
  box_y :: int
  box_w :: int
  box_h :: int

record detected_object =
  obj_name :: "string option"
  obj_confidence :: "real option"
  obj_bbox :: "bbox option"
  obj_crop_url :: "string option"
  obj_caption :: "string option"

text \<open>\<open>o.get("confidence", 0.0)\<close>.\<close>

definition get_confidence :: "detected_object \<Rightarrow> real" where
  "get_confidence ob = (case obj_confidence ob of None \<Rightarrow> 0 | Some c \<Rightarrow> c)"

text \<open>Truthiness of an object dict, and of an optional one: the empty dict is false.\<close>

definition dict_nonempty :: "detected_object \<Rightarrow> bool" where
  "dict_nonempty ob =
     (obj_name ob \<noteq> None \<or> obj_confidence ob \<noteq> None \<or> obj_bbox ob \<noteq> None
      \<or> obj_crop_url ob \<noteq> None \<or> obj_caption ob \<noteq> None)"

definition truthy_obj :: "detected_object option \<Rightarrow> bool" where
  "truthy_obj tob = (case tob of None \<Rightarrow> False | Some ob \<Rightarrow> dict_nonempty ob)"

section \<open>Keyword tables of the classifier\<close>

definition CATEGORIES :: "(int \<times> string) list" where
  "CATEGORIES =
    [(1, ''Equipamentos de troca de temperatura''),
     (2, ''Ecr'' @ [CHR 0xE3] @ ''s/Monitores (>100 cm'' @ [CHR 0xB2] @ '')''),
     (3, ''L'' @ [CHR 0xE2] @ ''mpadas''),
     (4, ''Grandes (dimens'' @ [CHR 0xE3] @ ''o > 50cm)''),
     (5, ''Pequenos (dimens'' @ [CHR 0xE3] @ ''o <= 50cm)''),
     (6, ''TIC pequena dimens'' @ [CHR 0xE3] @ ''o (<= 50cm)'')]"

definition KW1 :: "string list" where
  "KW1 = [''refrigerador'', ''geladeira'', ''frigor'' @ [CHR 0xED] @ ''fico'', ''freezer'',
    ''congelador'', ''ar-condicionado'', ''ar condicionado'', ''condicionador de ar'',
    ''bomba de calor'', ''heat pump'', ''air conditioner'', ''fridge'', ''cooler'']"

definition KW2 :: "string list" where
  "KW2 = [''televisor'', ''tv'', ''smart tv'', ''monitor'', ''ecr'' @ [CHR 0xE3], ''tela'',
    ''laptop'', ''notebook'', ''tablet'', ''display'', ''screen'']"

definition KW3 :: "string list" where
  "KW3 = [''l'' @ [CHR 0xE2] @ ''mpada'', ''lampada'', ''lamp'', ''bulbo'', ''light bulb'',
    ''fluorescente'', ''led'', ''incandescente'', ''tube'', ''tubo'']"

definition KW4 :: "string list" where
  "KW4 = [''m'' @ [CHR 0xE1] @ ''quina de lavar'', ''lavadora'', ''secadora'',
    ''lava-lou'' @ [CHR 0xE7] @ ''as'', ''lava lou'' @ [CHR 0xE7] @ ''as'', ''dishwasher'',
    ''stove'', ''fog'' @ [CHR 0xE3] @ ''o'', ''oven'', ''forno'', ''range'', ''geladeira grande'']"

definition KW5 :: "string list" where
  "KW5 = [''aspirador'', ''micro-ondas'', ''microondas'', ''torradeira'', ''ferro de passar'',
    ''kettle'', ''chaleira'', ''liquidificador'', ''blender'', ''mixer'',
    ''c'' @ [CHR 0xE2] @ ''mera'', ''camera'']"

definition KW6 :: "string list" where
  "KW6 = [''celular'', ''telefone'', ''smartphone'', ''phone'', ''pc pequeno'', ''mini pc'',
    ''router'', ''roteador'', ''gps'', ''calculadora'', ''calculator'', ''modem'', ''printer'',
    ''impressora'', ''tablet'', ''notebook'', ''laptop'']"

text \<open>The dict \<open>KEYWORDS\<close>, in insertion order.\<close>

definition KEYWORDS :: "(int \<times> string list) list" where
  "KEYWORDS = [(1, KW1), (2, KW2), (3, KW3), (4, KW4), (5, KW5), (6, KW6)]"

definition NON_EEE_KEYWORDS :: "string list" where
  "NON_EEE_KEYWORDS =
    [''pessoa'', ''person'', ''homem'', ''mulher'', ''people'', ''boy'', ''girl'',
     ''dog'', ''cachorro'', ''cat'', ''gato'', ''animal'', ''bird'', ''passaro'', ''cavalo'',
     [CHR 0xE1] @ ''rvore'', ''tree'', ''plant'', ''planta'', ''flor'', ''flower'', ''grass'',
     ''grama'', ''landscape'', ''paisagem'', ''sky'', ''c'' @ [CHR 0xE9] @ ''u'', ''beach'',
     ''praia'', ''ocean'', ''mar'', ''montanha'',
     ''car'', ''carro'', ''bike'', ''bicycle'', ''moto'', ''motorcycle'', ''truck'',
     ''caminh'' @ [CHR 0xE3] @ ''o'', ''bus'', [CHR 0xF4] @ ''nibus'',
     ''food'', ''comida'', ''fruta'', ''fruit'', ''vegetal'', ''vegetable'', ''drink'', ''bebida'',
     ''house'', ''casa'', ''building'', ''pr'' @ [CHR 0xE9] @ ''dio'', ''rua'', ''street'',
     ''wall'', ''parede'', ''sofa'', ''couch'', ''table'', ''mesa'', ''chair'', ''cadeira'',
     ''book'', ''livro'']"

section \<open>Keyword scoring and the non-EEE filter\<close>

definition norm_str :: "string option \<Rightarrow> string" where
  "norm_str s = py_lower (py_strip (case s of None \<Rightarrow> [] | Some t \<Rightarrow> t))"

definition token_hits :: "string \<Rightarrow> string list \<Rightarrow> int" where
  "token_hits text keywords =
     (let t = norm_str (Some text) in int (length (filter (\<lambda>k. str_in k t) keywords)))"

text \<open>\<open>cat_scores\<close> is a \<open>Dict[int, int]\<close>, kept as the list of its items.\<close>

definition is_non_eee :: "string \<Rightarrow> (int \<times> int) list \<Rightarrow> bool" where
  "is_non_eee text cat_scores =
     (if sum_list (map snd cat_scores) > 0 then False
      else token_hits text NON_EEE_KEYWORDS \<ge> 2)"

section \<open>Object selector\<close>

text \<open>The loop of \<open>_pick_best_object\<close> over \<open>objects[1:]\<close>, \<open>best\<close> being the loop variable.\<close>

fun pick_loop :: "detected_object \<Rightarrow> detected_object list \<Rightarrow> detected_object" where
  "pick_loop best [] = best"
| "pick_loop best (ob # obs) =
     (if get_confidence ob > get_confidence best then pick_loop ob obs
      else if get_confidence ob = get_confidence best then
        (if truthy (obj_caption ob) \<and> \<not> truthy (obj_caption best)
         then pick_loop ob obs else pick_loop best obs)
      else pick_loop best obs)"

definition pick_best_object :: "detected_object list \<Rightarrow> detected_object option" where
  "pick_best_object objects =
     (case objects of [] \<Rightarrow> None | ob # obs \<Rightarrow> Some (pick_loop ob obs))"

section \<open>Size estimator\<close>

definition estimate_size_ratio :: "int \<Rightarrow> int \<Rightarrow> bbox \<Rightarrow> real" where
  "estimate_size_ratio img_w img_h b =
     (let iw = max 1 img_w; ih = max 1 img_h; w = max 1 (box_w b); h = max 1 (box_h b)
      in real_of_int (w * h) / real_of_int (iw * ih))"

definition size_to_bucket :: "real \<Rightarrow> string" where
  "size_to_bucket size_ratio = (if size_ratio \<ge> 0.20 then ''grande'' else ''pequeno'')"

record size_agent_output =
  img_size :: "int \<times> int"
  object_bbox :: "bbox option"
  size_ratio :: "real option"
  size_bucket :: "string option"

text \<open>
  \<open>size_agent\<close> opens the image again; \<open>decode\<close> gives the size of the decoded image, or
  \<open>None\<close> when the bytes are not an image.
\<close>

definition size_agent ::
  "(string \<Rightarrow> (int \<times> int) option) \<Rightarrow> string \<Rightarrow> detected_object option
   \<Rightarrow> py_error + size_agent_output"
where
  "size_agent decode image_bytes top_object =
     (case decode image_bytes of
        None \<Rightarrow> Inl DecodeError
      | Some (W, H) \<Rightarrow>
         (case (if truthy_obj top_object then obj_bbox (the top_object) else None) of
            None \<Rightarrow> Inr \<lparr>img_size = (W, H), object_bbox = None, size_ratio = None,
                          size_bucket = None\<rparr>
          | Some b \<Rightarrow>
              (let ratio = estimate_size_ratio W H b; bucket = size_to_bucket ratio
               in Inr \<lparr>img_size = (W, H), object_bbox = Some b, size_ratio = Some ratio,
                       size_bucket = Some bucket\<rparr>)))"

section \<open>Rule classifier\<close>

datatype evidence =
    SizeFallback "string option" string
  | Keywords "(int \<times> int) list" string "string option"
  | LlmArbiter string

text \<open>The value stored under the key \<open>"source"\<close> of an evidence dict.\<close>

fun evidence_source :: "evidence \<Rightarrow> string" where
  "evidence_source (SizeFallback b t) = ''size_fallback''"
| "evidence_source (Keywords sc t b) = ''keywords''"
| "evidence_source (LlmArbiter t) = ''llm_arbiter''"

record rule_agent_output =
  category_id :: int
  category_name :: string
  score :: int
  evidence :: evidence

text \<open>
  The evidence text: name and caption of the top object, then the scene caption, each
  only when truthy, joined by \<open>" | "\<close>. The same lines occur in \<open>rule_agent\<close> and in
  \<open>classify_image_bytes\<close>.
\<close>

definition combined_text :: "string option \<Rightarrow> detected_object option \<Rightarrow> string" where
  "combined_text image_caption top_object =
     (let texts1 = (if truthy_obj top_object
                    then (if truthy (obj_name (the top_object))
                          then [the (obj_name (the top_object))] else [])
                       @ (if truthy (obj_caption (the top_object))
                          then [the (obj_caption (the top_object))] else [])
                    else []);
          texts = texts1 @ (if truthy image_caption then [the image_caption] else [])
      in join '' | '' texts)"

text \<open>\<open>{cid: _token_hits(combined, kws) for cid, kws in KEYWORDS.items()}\<close>.\<close>

definition cat_scores_of :: "string \<Rightarrow> (int \<times> int) list" where
  "cat_scores_of combined = map (\<lambda>(cid, kws). (cid, token_hits combined kws)) KEYWORDS"

text \<open>\<open>next(c["name"] for c in CATEGORIES if c["id"] == cid)\<close>; \<open>StopIteration\<close> when absent.\<close>

definition category_name_of :: "int \<Rightarrow> py_error + string" where
  "category_name_of cid =
     (case find (\<lambda>c. fst c = cid) CATEGORIES of
        None \<Rightarrow> Inl StopIteration | Some c \<Rightarrow> Inr (snd c))"

text \<open>\<open>pref.index(x)\<close>; \<open>None\<close> stands for the \<open>ValueError\<close> of a missing element.\<close>

fun list_index :: "int list \<Rightarrow> int \<Rightarrow> nat option" where
  "list_index [] x = None"
| "list_index (y # ys) x =
     (if y = x then Some 0 else map_option Suc (list_index ys x))"

definition pref :: "int list" where
  "pref = [1, 2, 3, 6, 4, 5]"

definition rule_agent ::
  "string option \<Rightarrow> detected_object option \<Rightarrow> string option \<Rightarrow> py_error + rule_agent_output"
where
  "rule_agent image_caption top_object sz_bucket =
     (let combined = combined_text image_caption top_object;
          cat_scores = cat_scores_of combined
      in if list_all (\<lambda>s. s = 0) (map snd cat_scores) then
           (let cid = (if sz_bucket = Some ''grande'' then 4 else 5)
            in case category_name_of cid of
                 Inl e \<Rightarrow> Inl e
               | Inr nm \<Rightarrow> Inr \<lparr>category_id = cid, category_name = nm, score = 1,
                               evidence = SizeFallback sz_bucket combined\<rparr>)
         else if cat_scores = [] then Inl ValueError
         else
           (let best_score = Max (set (map snd cat_scores));
                candidates = map fst (filter (\<lambda>(cid, sc). sc = best_score) cat_scores)
            in if list_ex (\<lambda>c. list_index pref c = None) candidates then Inl ValueError
               else case sort_key (\<lambda>x. the (list_index pref x)) candidates of
                     [] \<Rightarrow> Inl IndexError
                   | cid # _ \<Rightarrow>
                       (case category_name_of cid of
                          Inl e \<Rightarrow> Inl e
                        | Inr nm \<Rightarrow> Inr \<lparr>category_id = cid, category_name = nm,
                                        score = best_score,
                                        evidence = Keywords cat_scores combined sz_bucket\<rparr>)))"

section \<open>Intersection over union\<close>

text \<open>\<open>_iou\<close> of the vision service, on tuples \<open>(x, y, w, h)\<close>.\<close>

definition iou :: "int \<times> int \<times> int \<times> int \<Rightarrow> int \<times> int \<times> int \<times> int \<Rightarrow> real" where
  "iou boxA boxB =
     (case boxA of (Ax, Ay, Aw, Ah) \<Rightarrow> case boxB of (Bx, By, Bw, Bh) \<Rightarrow>
       (let A_x2 = Ax + Aw; A_y2 = Ay + Ah;
            B_x2 = Bx + Bw; B_y2 = By + Bh;
            inter_x1 = max Ax Bx;
            inter_y1 = max Ay By;
            inter_x2 = min A_x2 B_x2;
            inter_y2 = min A_y2 B_y2;
            inter_w = max 0 (inter_x2 - inter_x1);
            inter_h = max 0 (inter_y2 - inter_y1);
            inter_area = inter_w * inter_h;
            areaA = Aw * Ah;
            areaB = Bw * Bh;
            union_area = areaA + areaB - inter_area
        in if union_area \<le> 0 then 0
           else real_of_int inter_area / real_of_int union_area))"

text \<open>\<open>_bbox_iou\<close> of the routes, on bounding-box dicts.\<close>

definition bbox_iou :: "bbox \<Rightarrow> bbox \<Rightarrow> real" where
  "bbox_iou a b =
     (let Ax = box_x a; Ay = box_y a; Aw = box_w a; Ah = box_h a;
          Bx = box_x b; By = box_y b; Bw = box_w b; Bh = box_h b;
          A_x2 = Ax + Aw; A_y2 = Ay + Ah;
          B_x2 = Bx + Bw; B_y2 = By + Bh;
          inter_x1 = max Ax Bx;
          inter_y1 = max Ay By;
          inter_x2 = min A_x2 B_x2;
          inter_y2 = min A_y2 B_y2;
          inter_w = max 0 (inter_x2 - inter_x1);
          inter_h = max 0 (inter_y2 - inter_y1);
          inter_area = inter_w * inter_h;
          areaA = Aw * Ah;
          areaB = Bw * Bh;
          union_area = areaA + areaB - inter_area
      in if union_area > 0 then real_of_int inter_area / real_of_int union_area else 0)"

section \<open>Images and the normalizer's resize step\<close>

text \<open>
  An image is known by how it was obtained: opened from bytes with its decoded width and
  height, resized to a width and height, or cropped to the box \<open>(left, upper, right, lower)\<close>.
  Its pixels are not modelled. \<open>_image_to_bytes\<close> is a function of the image, so a request
  to the provider carries the image itself.
\<close>

datatype image =
    Opened string int int
  | Resized image int int
  | Cropped image int int int int

fun image_size :: "image \<Rightarrow> int \<times> int" where
  "image_size (Opened bytes w h) = (w, h)"
| "image_size (Resized img w h) = (w, h)"
| "image_size (Cropped img l u r d) = (r - l, d - u)"

text \<open>\<open>round\<close> of Python 3: to the nearest integer, a tie going to the even one.\<close>

definition py_round :: "real \<Rightarrow> int" where
  "py_round x =
     (let f = \<lfloor>x\<rfloor>; d = x - of_int f
      in if d < 1 / 2 then f else if d > 1 / 2 then f + 1
         else if even f then f else f + 1)"

text \<open>Float division, raising on a zero divisor.\<close>

definition float_div :: "int \<Rightarrow> int \<Rightarrow> py_error + real" where
  "float_div a b = (if b = 0 then Inl ZeroDivisionError else Inr (real_of_int a / real_of_int b))"

definition resize_to_valid :: "image \<Rightarrow> int \<Rightarrow> int \<Rightarrow> py_error + image" where
  "resize_to_valid img min_side max_side =
     (case image_size img of (w, h) \<Rightarrow>
       (case (if min w h < min_side
              then map_sum id (\<lambda>q. max 1 q) (float_div min_side (min w h))
              else Inr 1) of
          Inl e \<Rightarrow> Inl e
        | Inr scale1 \<Rightarrow>
           (case (if max w h > max_side
                  then map_sum id (\<lambda>q. min scale1 q) (float_div max_side (max w h))
                  else Inr scale1) of
              Inl e \<Rightarrow> Inl e
            | Inr scale \<Rightarrow>
               (if scale \<noteq> 1 then
                  (let new_w = max min_side (min (py_round (real_of_int w * scale)) max_side);
                       new_h = max min_side (min (py_round (real_of_int h * scale)) max_side)
                   in Inr (Resized img new_w new_h))
                else Inr img))))"

section \<open>Object detector\<close>

text \<open>
  The vision provider answers a request (an image and the requested features) with an
  analysis or raises. It may depend on the number of requests made before, which the
  detector threads through as a counter. Writing the crops to disk does not change the
  returned value and is not modelled.
\<close>

datatype visual_feature = CAPTION | OBJECTS

record tag =
  tag_name :: "string option"
  tag_confidence :: "real option"

record detection =
  bounding_box :: bbox
  det_name :: "string option"
  det_confidence :: "real option"
  det_tags :: "tag list"

record analysis =
  an_caption :: "string option"
  an_objects :: "detection list option"

type_synonym client = "nat \<Rightarrow> image \<Rightarrow> visual_feature list \<Rightarrow> py_error + analysis"

record vres =
  vres_session_id :: string
  vres_original_url :: string
  vres_image_caption :: "string option"
  vres_objects :: "detected_object list"

text \<open>Decimal digits of a natural number, and the format \<open>{n:03d}\<close>.\<close>

fun decimal :: "nat \<Rightarrow> string" where
  "decimal n =
     (if n < 10 then [char_of (48 + n)]
      else decimal (n div 10) @ [char_of (48 + n mod 10)])"

declare decimal.simps [simp del]

definition pad3 :: "nat \<Rightarrow> string" where
  "pad3 n = replicate (3 - length (decimal n)) (CHR ''0'') @ decimal n"

text \<open>The body of the loop over the provider's detections.\<close>

definition object_of_detection :: "detection \<Rightarrow> detected_object" where
  "object_of_detection det =
     (let r = bounding_box det;
          name0 = det_name det;
          confidence0 = det_confidence det;
          (name1, confidence1) =
            (if (name0 = None \<or> confidence0 = None) \<and> det_tags det \<noteq> []
             then (let tag0 = hd (det_tags det)
                   in (if truthy name0 then name0 else tag_name tag0,
                       if confidence0 \<noteq> None then confidence0 else tag_confidence tag0))
             else (name0, confidence0));
          name2 = (if truthy name1 then the name1 else ''objeto'');
          confidence2 = (case confidence1 of None \<Rightarrow> 0 | Some c \<Rightarrow> c)
      in \<lparr>obj_name = Some name2, obj_confidence = Some confidence2, obj_bbox = Some r,
          obj_crop_url = None, obj_caption = None\<rparr>)"

text \<open>\<open>_crop_regions\<close>: a box whose clipped width or height is not positive gives no crop.\<close>

fun crop_regions :: "image \<Rightarrow> bbox list \<Rightarrow> image list" where
  "crop_regions img [] = []"
| "crop_regions img (r # rs) =
     (case image_size img of (W, H) \<Rightarrow>
       (let x = box_x r; y = box_y r; w = box_w r; h = box_h r;
            x2 = max 0 x; y2 = max 0 y;
            x3 = min W (x + w); y3 = min H (y + h)
        in if x3 > x2 \<and> y3 > y2
           then Cropped img x2 y2 x3 y3 # crop_regions img rs
           else crop_regions img rs))"

text \<open>
  The loop \<open>for idx in range(len(objects))\<close>: object \<open>idx\<close> gets crop \<open>idx\<close> while crops
  remain; the objects after the last crop are left as they are. \<open>n\<close> counts the requests
  made so far.
\<close>

fun caption_loop ::
  "client \<Rightarrow> string \<Rightarrow> int \<Rightarrow> int \<Rightarrow> nat \<Rightarrow> detected_object list \<Rightarrow> image list \<Rightarrow> nat
   \<Rightarrow> py_error + (detected_object list \<times> nat)"
where
  "caption_loop cl sid min_side max_side idx [] crops n = Inr ([], n)"
| "caption_loop cl sid min_side max_side idx (ob # obs) [] n = Inr (ob # obs, n)"
| "caption_loop cl sid min_side max_side idx (ob # obs) (crop_img # crops) n =
     (case resize_to_valid crop_img min_side max_side of
        Inl e \<Rightarrow> Inl e
      | Inr crop_for_vision \<Rightarrow>
         (case cl n crop_for_vision [CAPTION] of
            Inl e \<Rightarrow> Inl e
          | Inr crop_analysis \<Rightarrow>
             (let ob' = ob\<lparr>obj_crop_url :=
                            Some (''/static/crops/'' @ sid @ ''/obj_'' @ pad3 idx @ ''.jpg''),
                          obj_caption := an_caption crop_analysis\<rparr>
              in case caption_loop cl sid min_side max_side (Suc idx) obs crops (Suc n) of
                   Inl e \<Rightarrow> Inl e
                 | Inr (obs', n') \<Rightarrow> Inr (ob' # obs', n'))))"

text \<open>The grid fallback: the state carried through its cells, and one cell of the grid.\<close>

record grid_state =
  g_objects :: "detected_object list"
  g_bboxes :: "bbox list"
  g_seen :: "string set"
  g_added :: nat
  g_calls :: nat

definition grid_cell ::
  "client \<Rightarrow> string \<Rightarrow> image \<Rightarrow> int \<Rightarrow> int \<Rightarrow> int \<times> int \<Rightarrow> grid_state
   \<Rightarrow> py_error + grid_state"
where
  "grid_cell cl sid pil_img min_side max_side cell st =
     (case cell of (gy, gx) \<Rightarrow> case image_size pil_img of (W, H) \<Rightarrow>
       (let max_extra = 10; grid_n = 3;
            cell_w = W div grid_n; cell_h = H div grid_n
        in if g_added st \<ge> max_extra then Inr st
           else
            (let cell_x = gx * cell_w; cell_y = gy * cell_h;
                 cell_w_eff = (if gx < grid_n - 1 then cell_w else W - cell_x);
                 cell_h_eff = (if gy < grid_n - 1 then cell_h else H - cell_y)
             in if cell_w_eff < min_side \<or> cell_h_eff < min_side then Inr st
                else
                 (let cell_box = (cell_x, cell_y, cell_w_eff, cell_h_eff)
                  in if list_ex (\<lambda>b. iou cell_box (box_x b, box_y b, box_w b, box_h b) > 0.2)
                          (g_bboxes st)
                     then Inr st
                     else
                      (let extra_crop = Cropped pil_img cell_x cell_y
                                          (cell_x + cell_w_eff) (cell_y + cell_h_eff)
                       in case resize_to_valid extra_crop min_side max_side of
                            Inl e \<Rightarrow> Inl e
                          | Inr extra_for_vision \<Rightarrow>
                             (case cl (g_calls st) extra_for_vision [CAPTION] of
                                Inl e \<Rightarrow> Inl e
                              | Inr extra_analysis \<Rightarrow>
                                 (let extra_caption = an_caption extra_analysis;
                                      st1 = st\<lparr>g_calls := Suc (g_calls st)\<rparr>
                                  in if \<not> truthy extra_caption
                                        \<or> py_strip (the extra_caption) = [] then Inr st1
                                     else if the extra_caption \<in> g_seen st then Inr st1
                                     else
                                      (let extra_bbox = \<lparr>box_x = cell_x, box_y = cell_y,
                                             box_w = cell_w_eff, box_h = cell_h_eff\<rparr>
                                       in Inr (st1\<lparr>
                                            g_objects := g_objects st @
                                              [\<lparr>obj_name = extra_caption,
                                                obj_confidence = Some 0,
                                                obj_bbox = Some extra_bbox,
                                                obj_crop_url = Some (''/static/crops/'' @ sid
                                                  @ ''/extra_'' @ pad3 (g_added st) @ ''.jpg''),
                                                obj_caption = extra_caption\<rparr>],
                                            g_bboxes := g_bboxes st @ [extra_bbox],
                                            g_seen := insert (the extra_caption) (g_seen st),
                                            g_added := Suc (g_added st)\<rparr>)))))))))"

text \<open>
  The cells in scan order. Once \<open>added\<close> reaches \<open>max_extra\<close> the source leaves the scan;
  \<open>grid_cell\<close> then leaves the state as it is for every remaining cell.
\<close>

fun grid_loop ::
  "client \<Rightarrow> string \<Rightarrow> image \<Rightarrow> int \<Rightarrow> int \<Rightarrow> (int \<times> int) list \<Rightarrow> grid_state
   \<Rightarrow> py_error + grid_state"
where
  "grid_loop cl sid pil_img min_side max_side [] st = Inr st"
| "grid_loop cl sid pil_img min_side max_side (cell # cells) st =
     (case grid_cell cl sid pil_img min_side max_side cell st of
        Inl e \<Rightarrow> Inl e
      | Inr st' \<Rightarrow> grid_loop cl sid pil_img min_side max_side cells st')"

definition grid_cells :: "(int \<times> int) list" where
  "grid_cells = concat (map (\<lambda>gy. map (\<lambda>gx. (gy, gx)) [0, 1, 2]) [0, 1, 2])"

text \<open>
  \<open>Image.open(io.BytesIO(image_bytes)).convert("RGB")\<close>: \<open>decode\<close> gives the size of the
  decoded image, or \<open>None\<close> when the bytes are not an image.
\<close>

definition open_image :: "(string \<Rightarrow> (int \<times> int) option) \<Rightarrow> string \<Rightarrow> py_error + image" where
  "open_image decode image_bytes =
     (case decode image_bytes of
        None \<Rightarrow> Inl DecodeError
      | Some (w, h) \<Rightarrow> Inr (Opened image_bytes w h))"

text \<open>
  \<open>analyze_image_bytes\<close>. \<open>sid\<close> is the fresh session identifier, \<open>n\<close> the number of
  requests made to the provider before; the result carries the number made after.
\<close>

definition analyze_image_bytes ::
  "client \<Rightarrow> (string \<Rightarrow> (int \<times> int) option) \<Rightarrow> string \<Rightarrow> string \<Rightarrow> bool \<Rightarrow> int \<Rightarrow> int \<Rightarrow> nat
   \<Rightarrow> py_error + (vres \<times> nat)"
where
  "analyze_image_bytes cl decode sid image_bytes enable_grid_fallback min_side max_side n =
     (case open_image decode image_bytes of
        Inl e \<Rightarrow> Inl e
      | Inr img0 \<Rightarrow>
     (case resize_to_valid img0 min_side max_side of
        Inl e \<Rightarrow> Inl e
      | Inr pil_img \<Rightarrow>
     (case cl n pil_img [CAPTION, OBJECTS] of
        Inl e \<Rightarrow> Inl e
      | Inr an \<Rightarrow>
        (let image_caption = an_caption an;
             detected_objects = (case an_objects an of None \<Rightarrow> [] | Some ds \<Rightarrow> ds);
             objects0 = map object_of_detection detected_objects;
             bboxes = map bounding_box detected_objects;
             crops = crop_regions pil_img bboxes
         in case caption_loop cl sid min_side max_side 0 objects0 crops (Suc n) of
              Inl e \<Rightarrow> Inl e
            | Inr (objects1, n1) \<Rightarrow>
               (let st0 = \<lparr>g_objects = objects1, g_bboxes = bboxes,
                           g_seen = set (map (\<lambda>ob. the (obj_caption ob))
                                      (filter (\<lambda>ob. truthy (obj_caption ob)) objects1)),
                           g_added = 0, g_calls = n1\<rparr>
                in case (if enable_grid_fallback \<and> length objects1 < 4
                         then grid_loop cl sid pil_img min_side max_side grid_cells st0
                         else Inr st0) of
                     Inl e \<Rightarrow> Inl e
                   | Inr st \<Rightarrow>
                       Inr (\<lparr>vres_session_id = sid,
                             vres_original_url = ''/static/uploads/'' @ sid @ ''/original.jpg'',
                             vres_image_caption = image_caption,
                             vres_objects = g_objects st\<rparr>, g_calls st))))))"

section \<open>Classification\<close>

record visual_agent_output =
  image_caption :: "string option"
  objects :: "detected_object list"
  original_url :: string
  session_id :: string

text \<open>\<open>visual_agent\<close>: the detector without grid fallback, with its default side bounds.\<close>

definition visual_agent ::
  "client \<Rightarrow> (string \<Rightarrow> (int \<times> int) option) \<Rightarrow> string \<Rightarrow> string \<Rightarrow> nat
   \<Rightarrow> py_error + (visual_agent_output \<times> nat)"
where
  "visual_agent cl decode sid image_bytes n =
     (case analyze_image_bytes cl decode sid image_bytes False 50 16000 n of
        Inl e \<Rightarrow> Inl e
      | Inr (vr, n') \<Rightarrow>
          Inr (\<lparr>image_caption = vres_image_caption vr, objects = vres_objects vr,
                original_url = vres_original_url vr, session_id = vres_session_id vr\<rparr>, n'))"

text \<open>
  The optional arbiter. \<open>llm\<close> stands for the remote agent: it gives the text of its last
  message, or \<open>None\<close> when the endpoint is not configured, the run fails or anything
  raises. The choice of a category from the text is the source's.
\<close>

record arbiter_context =
  ctx_image_caption :: "string option"
  ctx_top_object :: "detected_object option"
  ctx_size_bucket :: "string option"
  ctx_size_ratio :: "real option"

type_synonym llm =
  "rule_agent_output \<Rightarrow> (int \<times> string) list \<Rightarrow> arbiter_context \<Rightarrow> string option"

definition str_int :: "int \<Rightarrow> string" where
  "str_int i = (if i < 0 then ''-'' @ decimal (nat (- i)) else decimal (nat i))"

definition try_llm_arbiter ::
  "llm \<Rightarrow> rule_agent_output \<Rightarrow> (int \<times> string) list \<Rightarrow> arbiter_context
   \<Rightarrow> rule_agent_output option"
where
  "try_llm_arbiter ask rule_choice all_options context =
     (case ask rule_choice all_options context of
        None \<Rightarrow> None
      | Some text \<Rightarrow>
         (case find (\<lambda>c. str_in (str_int (fst c)) text
                          \<or> str_in (py_lower (snd c)) (py_lower text)) all_options of
            None \<Rightarrow> None
          | Some c \<Rightarrow>
             (if fst c = 0 then None
              else case category_name_of (fst c) of
                     Inl e \<Rightarrow> None
                   | Inr nm \<Rightarrow> Some \<lparr>category_id = fst c, category_name = nm,
                                     score = score rule_choice,
                                     evidence = LlmArbiter text\<rparr>)))"

text \<open>
  The result dict of \<open>classify_image_bytes\<close>. A key the source leaves out of the dict
  (\<open>filtered\<close> on the classified path, \<open>explanation\<close> on the filtered one) is \<open>None\<close>, as is a
  key it sets to \<open>None\<close> (\<open>category\<close> and \<open>rules\<close> on the filtered path).
\<close>

record classification_result =
  res_session_id :: string
  res_original_url :: string
  res_image_caption :: "string option"
  res_top_object :: "detected_object option"
  res_objects :: "detected_object list"
  res_size :: size_agent_output
  res_rules :: "rule_agent_output option"
  res_category :: "(int \<times> string) option"
  res_confidence :: real
  res_filtered :: "(string \<times> string) option"
  res_explanation :: "evidence option"

definition classify_image_bytes ::
  "client \<Rightarrow> (string \<Rightarrow> (int \<times> int) option) \<Rightarrow> llm \<Rightarrow> string \<Rightarrow> string \<Rightarrow> bool \<Rightarrow> nat
   \<Rightarrow> py_error + classification_result"
where
  "classify_image_bytes cl decode ask sid image_bytes use_llm_arbiter n =
     (case visual_agent cl decode sid image_bytes n of
        Inl e \<Rightarrow> Inl e
      | Inr (vis, n') \<Rightarrow>
     (let top_obj = pick_best_object (objects vis)
      in case size_agent decode image_bytes top_obj of
           Inl e \<Rightarrow> Inl e
         | Inr sz \<Rightarrow>
     (let combined = combined_text (image_caption vis) top_obj;
          cat_scores = cat_scores_of combined;
          conf = (if truthy_obj top_obj then get_confidence (the top_obj) else 0)
      in if is_non_eee combined cat_scores then
           Inr \<lparr>res_session_id = session_id vis,
                res_original_url = original_url vis,
                res_image_caption = image_caption vis,
                res_top_object = top_obj,
                res_objects = objects vis,
                res_size = sz,
                res_rules = None,
                res_category = None,
                res_confidence = conf,
                res_filtered = Some (''non_eee'', combined),
                res_explanation = None\<rparr>
         else
          (case rule_agent (image_caption vis) top_obj (size_bucket sz) of
             Inl e \<Rightarrow> Inl e
           | Inr rules_choice \<Rightarrow>
              (let final_choice =
                     (if use_llm_arbiter then
                        (case try_llm_arbiter ask rules_choice CATEGORIES
                                \<lparr>ctx_image_caption = image_caption vis,
                                 ctx_top_object = top_obj,
                                 ctx_size_bucket = size_bucket sz,
                                 ctx_size_ratio = size_ratio sz\<rparr> of
                           None \<Rightarrow> rules_choice
                         | Some arb \<Rightarrow> arb)
                      else rules_choice)
               in Inr \<lparr>res_session_id = session_id vis,
                       res_original_url = original_url vis,
                       res_image_caption = image_caption vis,
                       res_top_object = top_obj,
                       res_objects = objects vis,
                       res_size = sz,
                       res_rules = Some rules_choice,
                       res_category = Some (category_id final_choice,
                                            category_name final_choice),
                       res_confidence = conf,
                       res_filtered = None,
                       res_explanation = Some (evidence final_choice)\<rparr>)))))"

section \<open>Notions used to state the properties\<close>

text \<open>The object that wins among objects of equal confidence, in list order.\<close>

definition has_caption :: "detected_object \<Rightarrow> bool" where
  "has_caption ob = truthy (obj_caption ob)"

definition tie_winner :: "detected_object list \<Rightarrow> detected_object" where
  "tie_winner ts = (case find has_caption ts of Some t \<Rightarrow> t | None \<Rightarrow> hd ts)"

text \<open>Concrete objects: equal confidence, the first without a caption.\<close>

definition obj_plain :: detected_object where
  "obj_plain = \<lparr>obj_name = Some ''monitor'', obj_confidence = Some (1 / 2),
     obj_bbox = None, obj_crop_url = None, obj_caption = None\<rparr>"

definition obj_captioned :: detected_object where
  "obj_captioned = \<lparr>obj_name = Some ''screen'', obj_confidence = Some (1 / 2),
     obj_bbox = None, obj_crop_url = None, obj_caption = Some ''a computer screen''\<rparr>"

text \<open>Concrete objects for the rule classifier: a tie of categories 1 and 4, and no keyword.\<close>

definition obj_tie :: detected_object where
  "obj_tie = \<lparr>obj_name = Some ''geladeira grande'', obj_confidence = Some (4 / 5),
     obj_bbox = None, obj_crop_url = None, obj_caption = None\<rparr>"

definition obj_box :: detected_object where
  "obj_box = \<lparr>obj_name = Some ''box'', obj_confidence = Some (4 / 5),
     obj_bbox = None, obj_crop_url = None, obj_caption = None\<rparr>"

text \<open>
  A box as the set of pixels it covers, the box tuple of a bounding-box dict, and the
  two areas of the overlap formula.
\<close>

definition pixels :: "int \<times> int \<times> int \<times> int \<Rightarrow> (int \<times> int) set" where
  "pixels b = (case b of (x, y, w, h) \<Rightarrow> {(i, j). x \<le> i \<and> i < x + w \<and> y \<le> j \<and> j < y + h})"

definition box_unit :: bbox where
  "box_unit = \<lparr>box_x = 0, box_y = 0, box_w = 1, box_h = 1\<rparr>"

definition tuple_of :: "bbox \<Rightarrow> int \<times> int \<times> int \<times> int" where
  "tuple_of b = (box_x b, box_y b, box_w b, box_h b)"

definition inter_area :: "int \<times> int \<times> int \<times> int \<Rightarrow> int \<times> int \<times> int \<times> int \<Rightarrow> int" where
  "inter_area A B =
     (case A of (Ax, Ay, Aw, Ah) \<Rightarrow> case B of (Bx, By, Bw, Bh) \<Rightarrow>
        max 0 (min (Ax + Aw) (Bx + Bw) - max Ax Bx) * max 0 (min (Ay + Ah) (By + Bh) - max Ay By))"

definition union_area :: "int \<times> int \<times> int \<times> int \<Rightarrow> int \<times> int \<times> int \<times> int \<Rightarrow> int" where
  "union_area A B =
     (case A of (Ax, Ay, Aw, Ah) \<Rightarrow> case B of (Bx, By, Bw, Bh) \<Rightarrow>
        Aw * Ah + Bw * Bh - inter_area A B)"

text \<open>
  Concrete collaborators. \<open>dummy_client\<close> is the client of the repository's own test: a
  100 by 100 image, one detection whose name and confidence come from its first tag, the
  scene caption \<open>street with cars\<close> and the crop caption \<open>a car\<close>. \<open>client_one\<close> answers
  the whole-image request with one detection of the given name and confidence 0.9 and no
  scene caption, and every caption request with the given answer.
\<close>

definition decode_100 :: "string \<Rightarrow> (int \<times> int) option" where
  "decode_100 image_bytes = Some (100, 100)"

definition dummy_obj :: detection where
  "dummy_obj = \<lparr>bounding_box = \<lparr>box_x = 10, box_y = 10, box_w = 50, box_h = 50\<rparr>,
     det_name = None, det_confidence = None,
     det_tags = [\<lparr>tag_name = Some ''car'', tag_confidence = Some (88 / 100)\<rparr>]\<rparr>"

definition dummy_client :: client where
  "dummy_client n img features =
     (if OBJECTS \<in> set features
      then Inr \<lparr>an_caption = Some ''street with cars'', an_objects = Some [dummy_obj]\<rparr>
      else Inr \<lparr>an_caption = Some ''a car'', an_objects = None\<rparr>)"

definition det_named :: "string \<Rightarrow> detection" where
  "det_named nm = \<lparr>bounding_box = \<lparr>box_x = 10, box_y = 10, box_w = 50, box_h = 50\<rparr>,
     det_name = Some nm, det_confidence = Some (9 / 10), det_tags = []\<rparr>"

definition client_one :: "string \<Rightarrow> (py_error + analysis) \<Rightarrow> client" where
  "client_one nm crop_answer n img features =
     (if OBJECTS \<in> set features
      then Inr \<lparr>an_caption = None, an_objects = Some [det_named nm]\<rparr>
      else crop_answer)"

definition no_caption :: "py_error + analysis" where
  "no_caption = Inr \<lparr>an_caption = None, an_objects = None\<rparr>"

definition no_llm :: llm where
  "no_llm rule_choice all_options context = None"

definition crop_failure :: "py_error + analysis" where
  "crop_failure = Inl (ProviderError ''caption request failed'')"

text \<open>
  \<open>client_two\<close> answers the whole-image request with two detections and no scene caption,
  the caption request made second (the first crop) with a caption, and every other
  caption request with a failure.
\<close>

definition client_two :: client where
  "client_two n img features =
     (if OBJECTS \<in> set features
      then Inr \<lparr>an_caption = None,
                an_objects = Some [det_named ''laptop'', det_named ''mouse'']\<rparr>
      else if n = 1 then Inr \<lparr>an_caption = Some ''a laptop'', an_objects = None\<rparr>
      else crop_failure)"

section \<open>Properties of keyword scoring and of the non-EEE filter\<close>

lemma str_in_sublist: "str_in k t \<longleftrightarrow> sublist k t"
  by (induction t) (auto simp: sublist_Cons_right)

lemma distinct_NON_EEE_KEYWORDS: "distinct NON_EEE_KEYWORDS"
  by code_simp

lemma token_hits_card:
  "distinct kws \<Longrightarrow>
   token_hits text kws = int (card {k \<in> set kws. str_in k (py_lower (py_strip text))})"
  by (simp add: token_hits_def norm_str_def distinct_length_filter Collect_conj_eq Int_commute)

lemma token_hits_nonneg: "0 \<le> token_hits text kws"
  by (simp add: token_hits_def)

text \<open>
  Claim C1. The non-EEE filter answers true exactly when the category scores do not sum
  to more than 0 and at least two distinct keywords of the non-EEE table occur in the
  stripped, lower-cased text. So a positive sum never filters, and with sum 0 one matching
  keyword is not enough.
\<close>

theorem non_eee_filter_rule:
  "is_non_eee text cat_scores \<longleftrightarrow>
     \<not> 0 < sum_list (map snd cat_scores) \<and>
     2 \<le> card {k \<in> set NON_EEE_KEYWORDS. str_in k (py_lower (py_strip text))}"
  by (simp add: is_non_eee_def token_hits_card [OF distinct_NON_EEE_KEYWORDS])

theorem non_eee_filter_rule_witness:
  "is_non_eee ''a dog sitting on grass'' (cat_scores_of ''a dog sitting on grass'') \<and>
   2 \<le> card {k \<in> set NON_EEE_KEYWORDS.
             str_in k (py_lower (py_strip ''a dog sitting on grass''))}"
proof -
  have "is_non_eee ''a dog sitting on grass'' (cat_scores_of ''a dog sitting on grass'')"
    by code_simp
  then show ?thesis
    using non_eee_filter_rule
      [of "''a dog sitting on grass''" "cat_scores_of ''a dog sitting on grass''"]
    by blast
qed

text \<open>
  Claim C10. The one-word text \<open>carro\<close> triggers the non-EEE filter: all six category
  scores are 0 and the word contains the two non-EEE keywords \<open>car\<close> and \<open>carro\<close>.
\<close>

theorem single_word_triggers_filter:
  "is_non_eee ''carro'' (cat_scores_of ''carro'') \<and>
   map snd (cat_scores_of ''carro'') = [0, 0, 0, 0, 0, 0] \<and>
   filter (\<lambda>k. str_in k (norm_str (Some ''carro''))) NON_EEE_KEYWORDS = [''car'', ''carro'']"
  by code_simp

section \<open>Properties of the object selector\<close>

lemma pick_loop_mem: "pick_loop b obs \<in> set (b # obs)"
  by (induction obs arbitrary: b) (auto split: if_splits)

lemma pick_loop_max:
  "ob \<in> set (b # obs) \<Longrightarrow> get_confidence ob \<le> get_confidence (pick_loop b obs)"
proof (induction obs arbitrary: b ob)
  case Nil
  then show ?case by simp
next
  case (Cons a obs)
  have b_le: "get_confidence b \<le> get_confidence (pick_loop b obs)" for b
    using Cons.IH [of b b] by simp
  show ?case
    using Cons.prems Cons.IH [of ob a] Cons.IH [of ob b] b_le [of a] b_le [of b]
    by (auto split: if_splits)
qed

lemma pick_loop_tie:
  assumes "\<forall>ob \<in> set (b # obs). get_confidence ob \<le> m"
      and "\<exists>ob \<in> set (b # obs). get_confidence ob = m"
  shows "pick_loop b obs = tie_winner (filter (\<lambda>ob. get_confidence ob = m) (b # obs))"
  using assms
proof (induction obs arbitrary: b)
  case Nil
  then show ?case by (simp add: tie_winner_def)
next
  case (Cons a obs)
  consider (gt) "get_confidence a > get_confidence b"
    | (eq_swap) "get_confidence a = get_confidence b" "has_caption a" "\<not> has_caption b"
    | (eq_keep) "get_confidence a = get_confidence b" "\<not> (has_caption a \<and> \<not> has_caption b)"
    | (lt) "get_confidence a < get_confidence b"
    by fastforce
  then show ?case
  proof cases
    case gt
    have "pick_loop b (a # obs) = pick_loop a obs" using gt by simp
    moreover have "pick_loop a obs = tie_winner (filter (\<lambda>ob. get_confidence ob = m) (a # obs))"
      using Cons.prems gt by (intro Cons.IH) auto
    moreover have "get_confidence b \<noteq> m" using Cons.prems gt by auto
    ultimately show ?thesis by simp
  next
    case eq_swap
    have "pick_loop b (a # obs) = pick_loop a obs" using eq_swap by (simp add: has_caption_def)
    moreover have "pick_loop a obs = tie_winner (filter (\<lambda>ob. get_confidence ob = m) (a # obs))"
      using Cons.prems eq_swap by (intro Cons.IH) auto
    ultimately show ?thesis using eq_swap
      by (cases "get_confidence b = m") (simp_all add: tie_winner_def)
  next
    case eq_keep
    have "pick_loop b (a # obs) = pick_loop b obs" using eq_keep by (auto simp: has_caption_def)
    moreover have "pick_loop b obs = tie_winner (filter (\<lambda>ob. get_confidence ob = m) (b # obs))"
      using Cons.prems eq_keep by (intro Cons.IH) auto
    ultimately show ?thesis using eq_keep
      by (cases "get_confidence b = m") (auto simp: tie_winner_def split: option.splits)
  next
    case lt
    have "pick_loop b (a # obs) = pick_loop b obs" using lt by simp
    moreover have "pick_loop b obs = tie_winner (filter (\<lambda>ob. get_confidence ob = m) (b # obs))"
      using Cons.prems lt by (intro Cons.IH) auto
    moreover have "get_confidence a \<noteq> m" using Cons.prems lt by auto
    ultimately show ?thesis by simp
  qed
qed

text \<open>
  Claim C5. The selector gives none for the empty list. For a non-empty list it gives an
  object of the list whose confidence is the highest, and among the objects of that
  confidence, taken in list order, the first one with a non-empty caption when the first
  of them has none, and the first of them in every other case.
\<close>

theorem pick_best_object_spec:
  "pick_best_object [] = None \<and>
   (objs \<noteq> [] \<longrightarrow>
     (\<exists>r. pick_best_object objs = Some r \<and> r \<in> set objs \<and>
          (\<forall>ob \<in> set objs. get_confidence ob \<le> get_confidence r) \<and>
          r = tie_winner (filter (\<lambda>ob. get_confidence ob = get_confidence r) objs)))"
proof (cases objs)
  case Nil
  then show ?thesis by (simp add: pick_best_object_def)
next
  case (Cons b obs)
  let ?r = "pick_loop b obs"
  have mem: "?r \<in> set (b # obs)" by (rule pick_loop_mem)
  have mx: "\<forall>ob \<in> set (b # obs). get_confidence ob \<le> get_confidence ?r"
    using pick_loop_max by blast
  have "?r = tie_winner (filter (\<lambda>ob. get_confidence ob = get_confidence ?r) (b # obs))"
    using mx mem by (intro pick_loop_tie) blast+
  then show ?thesis
    using Cons mem mx by (simp add: pick_best_object_def)
qed

theorem pick_best_object_spec_witness:
  "[obj_plain, obj_captioned] \<noteq> [] \<and>
   pick_best_object [obj_plain, obj_captioned] = Some obj_captioned \<and>
   (\<exists>r. pick_best_object [obj_plain, obj_captioned] = Some r \<and>
        r \<in> set [obj_plain, obj_captioned] \<and>
        (\<forall>ob \<in> set [obj_plain, obj_captioned]. get_confidence ob \<le> get_confidence r) \<and>
        r = tie_winner (filter (\<lambda>ob. get_confidence ob = get_confidence r)
              [obj_plain, obj_captioned]))"
proof -
  have ne: "[obj_plain, obj_captioned] \<noteq> []" by simp
  have ev: "pick_best_object [obj_plain, obj_captioned] = Some obj_captioned"
    by (simp add: pick_best_object_def obj_plain_def obj_captioned_def get_confidence_def
        truthy_def)
  from pick_best_object_spec [of "[obj_plain, obj_captioned]"] ne ev show ?thesis
    by blast
qed

section \<open>Properties of the rule classifier\<close>

lemma list_index_Some:
  "list_index ys x = Some i \<Longrightarrow> i < length ys \<and> ys ! i = x \<and> (\<forall>j<i. ys ! j \<noteq> x)"
proof (induction ys arbitrary: i)
  case Nil
  then show ?case by simp
next
  case (Cons y ys)
  show ?case
  proof (cases "y = x")
    case True
    with Cons.prems show ?thesis by simp
  next
    case False
    with Cons.prems obtain i' where i': "list_index ys x = Some i'" "i = Suc i'" by auto
    from Cons.IH [OF i'(1)] False i'(2) show ?thesis
      by (auto simp: nth_Cons split: nat.splits)
  qed
qed

lemma list_index_None: "list_index ys x = None \<longleftrightarrow> x \<notin> set ys"
  by (induction ys) auto

lemma list_index_nth_le:
  assumes "j < length ys"
  shows "the (list_index ys (ys ! j)) \<le> j"
proof -
  have "ys ! j \<in> set ys" using assms by simp
  then obtain i where i: "list_index ys (ys ! j) = Some i"
    using list_index_None [of ys "ys ! j"] by (cases "list_index ys (ys ! j)") auto
  from list_index_Some [OF i] have "\<not> j < i" by blast
  with i show ?thesis by simp
qed

lemma find_least_index:
  assumes "P y" and "y \<in> set ys"
      and "\<forall>x \<in> set ys. P x \<longrightarrow> the (list_index ys y) \<le> the (list_index ys x)"
  shows "find P ys = Some y"
proof -
  obtain i where i: "list_index ys y = Some i"
    using assms(2) list_index_None [of ys y] by (cases "list_index ys y") auto
  from list_index_Some [OF i] have il: "i < length ys" and iy: "ys ! i = y" by auto
  have "\<not> P (ys ! j)" if "j < i" for j
  proof
    assume Pj: "P (ys ! j)"
    have jl: "j < length ys" using that il by simp
    then have "i \<le> the (list_index ys (ys ! j))" using assms(3) Pj i by auto
    also have "\<dots> \<le> j" by (rule list_index_nth_le [OF jl])
    finally show False using that by simp
  qed
  then show ?thesis
    unfolding find_Some_iff using il iy assms(1) by blast
qed

lemma sort_key_head:
  assumes "sort_key f xs = y # ys"
  shows "y \<in> set xs \<and> (\<forall>x \<in> set xs. f y \<le> f x)"
proof -
  have s: "set (y # ys) = set xs" using assms set_sort [of f xs] by simp
  have "sorted (map f (y # ys))" using assms sorted_sort_key [of f xs] by simp
  then have "\<forall>z \<in> set ys. f y \<le> f z" by simp
  with s show ?thesis by auto
qed

lemma sort_key_nonempty: "xs \<noteq> [] \<Longrightarrow> \<exists>y ys. sort_key f xs = y # ys"
  using length_sort [of f xs] by (cases "sort_key f xs") auto

lemma category_name_of_total:
  "c \<in> {1, 2, 3, 4, 5, 6} \<Longrightarrow> \<exists>nm. category_name_of c = Inr nm"
  by (auto simp: category_name_of_def CATEGORIES_def)

lemma fst_cat_scores_of: "map fst (cat_scores_of t) = [1, 2, 3, 4, 5, 6]"
  by (simp add: cat_scores_of_def KEYWORDS_def)

lemma cat_scores_of_nonempty: "cat_scores_of t \<noteq> []"
  by (simp add: cat_scores_of_def KEYWORDS_def)

lemma distinct_pref: "distinct pref" and set_pref: "set pref = {1, 2, 3, 4, 5, 6}"
  by (auto simp: pref_def)

text \<open>The choice among tied maxima, for any score dict whose keys are in \<open>pref\<close>.\<close>

lemma keyword_choice:
  fixes cs :: "(int \<times> int) list"
  assumes ne: "cs \<noteq> []" and keys: "fst ` set cs \<subseteq> set pref" and dk: "distinct (map fst cs)"
  defines "best \<equiv> Max (set (map snd cs))"
  defines "cands \<equiv> map fst (filter (\<lambda>(cid, sc). sc = best) cs)"
  shows "\<not> list_ex (\<lambda>c. list_index pref c = None) cands"
    and "\<exists>cid rest. sort_key (\<lambda>x. the (list_index pref x)) cands = cid # rest
           \<and> (cid, best) \<in> set cs
           \<and> find (\<lambda>c. (c, best) \<in> set cs) pref = Some cid"
proof -
  have cands_set: "set cands = {c. (c, best) \<in> set cs}"
    by (force simp: cands_def)
  have "best \<in> set (map snd cs)"
    unfolding best_def using ne by (intro Max_in) auto
  then have "cands \<noteq> []" using cands_set by (auto simp: )
  have sub: "set cands \<subseteq> set pref" using keys cands_set by force
  then show "\<not> list_ex (\<lambda>c. list_index pref c = None) cands"
    by (auto simp: list_ex_iff list_index_None)
  obtain cid rest where sk: "sort_key (\<lambda>x. the (list_index pref x)) cands = cid # rest"
    using sort_key_nonempty [OF \<open>cands \<noteq> []\<close>] by blast
  from sort_key_head [OF sk] have cin: "cid \<in> set cands"
    and cmin: "\<forall>x \<in> set cands. the (list_index pref cid) \<le> the (list_index pref x)" by auto
  have "find (\<lambda>c. (c, best) \<in> set cs) pref = Some cid"
    using cin cmin sub cands_set by (intro find_least_index) auto
  then show "\<exists>cid rest. sort_key (\<lambda>x. the (list_index pref x)) cands = cid # rest
           \<and> (cid, best) \<in> set cs
           \<and> find (\<lambda>c. (c, best) \<in> set cs) pref = Some cid"
    using sk cin cands_set by auto
qed

lemma rule_agent_keywords_aux:
  assumes c: "combined = combined_text cap tob"
      and s: "scores = cat_scores_of combined"
      and nz: "\<not> list_all (\<lambda>s. s = 0) (map snd scores)"
  shows "\<exists>out. rule_agent cap tob sz_bucket = Inr out
           \<and> score out = Max (set (map snd scores))
           \<and> (category_id out, score out) \<in> set scores
           \<and> find (\<lambda>c. (c, score out) \<in> set scores) pref = Some (category_id out)
           \<and> ((1, score out) \<in> set scores \<longrightarrow> category_id out = 1)
           \<and> evidence out = Keywords scores combined sz_bucket
           \<and> evidence_source (evidence out) = ''keywords''"
proof -
  define best where "best = Max (set (map snd scores))"
  define cands where "cands = map fst (filter (\<lambda>(cid, sc). sc = best) scores)"
  have ne: "scores \<noteq> []" using s cat_scores_of_nonempty by simp
  have keys: "fst ` set scores \<subseteq> set pref"
    using fst_cat_scores_of [of combined] s set_pref
    by (metis set_map list.simps(15) empty_set subset_refl)
  have dk: "distinct (map fst scores)" using fst_cat_scores_of [of combined] s by simp
  from keyword_choice [OF ne keys dk]
  have ok: "\<not> list_ex (\<lambda>c. list_index pref c = None) cands"
    and "\<exists>cid rest. sort_key (\<lambda>x. the (list_index pref x)) cands = cid # rest
           \<and> (cid, best) \<in> set scores
           \<and> find (\<lambda>c. (c, best) \<in> set scores) pref = Some cid"
    unfolding best_def cands_def by auto
  then obtain cid rest where sk: "sort_key (\<lambda>x. the (list_index pref x)) cands = cid # rest"
    and cin: "(cid, best) \<in> set scores"
    and fnd: "find (\<lambda>c. (c, best) \<in> set scores) pref = Some cid" by blast
  have "cid \<in> fst ` set scores" using cin by force
  then have "cid \<in> {1, 2, 3, 4, 5, 6}" using keys set_pref by auto
  then obtain nm where nm: "category_name_of cid = Inr nm"
    using category_name_of_total by blast
  have one: "(1, best) \<in> set scores \<longrightarrow> cid = 1"
    using fnd by (auto simp: pref_def)
  have "rule_agent cap tob sz_bucket
          = Inr \<lparr>category_id = cid, category_name = nm, score = best,
                 evidence = Keywords scores combined sz_bucket\<rparr>"
    unfolding rule_agent_def Let_def c [symmetric] s [symmetric]
      best_def [symmetric] cands_def [symmetric]
    using nz ne ok sk nm by simp
  then show ?thesis
    using cin fnd one by (simp add: best_def)
qed

text \<open>
  Claim C3. When some category score is not zero, the rule classifier returns; the
  returned score is the maximum of the scores, the returned category has that score and
  is the first category of the preference order \<open>[1, 2, 3, 6, 4, 5]\<close> that has it (so
  category 1 wins whenever it is among the tied ones), and the evidence has source
  \<open>keywords\<close> and holds the whole score dict.
\<close>

theorem rule_agent_keyword_choice:
  assumes c: "combined = combined_text cap tob"
      and s: "scores = cat_scores_of combined"
      and nz: "\<not> list_all (\<lambda>s. s = 0) (map snd scores)"
  shows "\<exists>out. rule_agent cap tob sz_bucket = Inr out
           \<and> score out = Max (set (map snd scores))
           \<and> (category_id out, score out) \<in> set scores
           \<and> find (\<lambda>c. (c, score out) \<in> set scores) pref = Some (category_id out)
           \<and> ((1, score out) \<in> set scores \<longrightarrow> category_id out = 1)
           \<and> evidence out = Keywords scores combined sz_bucket
           \<and> evidence_source (evidence out) = ''keywords''"
  by (rule rule_agent_keywords_aux [OF c s nz])

theorem rule_agent_keyword_choice_witness:
  "\<not> list_all (\<lambda>s. s = 0) (map snd (cat_scores_of (combined_text None (Some obj_tie)))) \<and>
   cat_scores_of (combined_text None (Some obj_tie))
     = [(1, 1), (2, 0), (3, 0), (4, 1), (5, 0), (6, 0)] \<and>
   (\<exists>out. rule_agent None (Some obj_tie) None = Inr out \<and> category_id out = 1 \<and>
          score out = 1 \<and> evidence_source (evidence out) = ''keywords'')"
proof -
  have sc: "cat_scores_of (combined_text None (Some obj_tie))
              = [(1, 1), (2, 0), (3, 0), (4, 1), (5, 0), (6, 0)]"
    by code_simp
  have nz: "\<not> list_all (\<lambda>s. s = 0) (map snd (cat_scores_of (combined_text None (Some obj_tie))))"
    by (simp add: sc)
  from rule_agent_keyword_choice [OF refl refl nz, of None]
  obtain out where "rule_agent None (Some obj_tie) None = Inr out"
    and "score out = Max (set (map snd (cat_scores_of (combined_text None (Some obj_tie)))))"
    and "(1, score out) \<in> set (cat_scores_of (combined_text None (Some obj_tie)))
           \<longrightarrow> category_id out = 1"
    and "evidence_source (evidence out) = ''keywords''"
    by blast
  then show ?thesis using sc nz by auto
qed

lemma size_to_bucket_large: "size_to_bucket r = ''grande'' \<longleftrightarrow> r \<ge> 1 / 5"
  by (simp add: size_to_bucket_def)

lemma rule_agent_fallback_aux:
  assumes c: "combined = combined_text cap tob"
      and z: "list_all (\<lambda>s. s = 0) (map snd (cat_scores_of combined))"
  shows "\<exists>out. rule_agent cap tob sz_bucket = Inr out
           \<and> category_id out = (if sz_bucket = Some ''grande'' then 4 else 5)
           \<and> evidence out = SizeFallback sz_bucket combined
           \<and> evidence_source (evidence out) = ''size_fallback''"
proof -
  obtain n4 n5 where "category_name_of 4 = Inr n4" "category_name_of 5 = Inr n5"
    using category_name_of_total [of 4] category_name_of_total [of 5] by auto
  then show ?thesis
    using c z by (simp add: rule_agent_def Let_def)
qed

text \<open>
  Claim C2. When all six category scores are zero, the rule classifier returns category
  4 for the size bucket \<open>grande\<close> (the label the size estimator gives a ratio of at least
  0.20, the large bucket) and category 5 for any other bucket or none, and the evidence
  has source \<open>size_fallback\<close>.
\<close>

theorem rule_agent_size_fallback:
  assumes c: "combined = combined_text cap tob"
      and z: "list_all (\<lambda>s. s = 0) (map snd (cat_scores_of combined))"
  shows "\<exists>out. rule_agent cap tob sz_bucket = Inr out
           \<and> category_id out = (if sz_bucket = Some ''grande'' then 4 else 5)
           \<and> evidence out = SizeFallback sz_bucket combined
           \<and> evidence_source (evidence out) = ''size_fallback''"
  by (rule rule_agent_fallback_aux [OF c z])

theorem rule_agent_size_fallback_witness:
  "list_all (\<lambda>s. s = 0) (map snd (cat_scores_of (combined_text None (Some obj_box)))) \<and>
   (\<exists>out. rule_agent None (Some obj_box) (Some ''grande'') = Inr out \<and> category_id out = 4 \<and>
          evidence_source (evidence out) = ''size_fallback'') \<and>
   (\<exists>out. rule_agent None (Some obj_box) (Some ''pequeno'') = Inr out \<and> category_id out = 5) \<and>
   (\<exists>out. rule_agent None (Some obj_box) None = Inr out \<and> category_id out = 5)"
proof -
  have z: "list_all (\<lambda>s. s = 0) (map snd (cat_scores_of (combined_text None (Some obj_box))))"
    by code_simp
  show ?thesis
    using z rule_agent_size_fallback [OF refl z, of "Some ''grande''"]
      rule_agent_size_fallback [OF refl z, of "Some ''pequeno''"]
      rule_agent_size_fallback [OF refl z, of None]
    by auto
qed

section \<open>Properties of the overlap ratio\<close>

lemma iou_formula:
  "iou A B = (if union_area A B \<le> 0 then 0
              else real_of_int (inter_area A B) / real_of_int (union_area A B))"
  by (cases A; cases B) (simp only: iou_def union_area_def inter_area_def Let_def prod.case)

lemma if_pos_swap: "(if 0 < u then q else z) = (if u \<le> (0::int) then z else (q::real))"
  by simp

lemma bbox_iou_iou: "bbox_iou a b = iou (tuple_of a) (tuple_of b)"
  by (simp only: bbox_iou_def iou_def tuple_of_def Let_def prod.case if_pos_swap)

lemma inter_area_commute: "inter_area A B = inter_area B A"
proof -
  obtain Ax Ay Aw Ah where A: "A = (Ax, Ay, Aw, Ah)" by (cases A)
  obtain Bx By Bw Bh where B: "B = (Bx, By, Bw, Bh)" by (cases B)
  show ?thesis
    unfolding A B inter_area_def prod.case
    by (simp only: max.commute [of Ax Bx] max.commute [of Ay By]
        min.commute [of "Ax + Aw" "Bx + Bw"] min.commute [of "Ay + Ah" "By + Bh"])
qed

lemma union_area_commute: "union_area A B = union_area B A"
proof -
  obtain Ax Ay Aw Ah where A: "A = (Ax, Ay, Aw, Ah)" by (cases A)
  obtain Bx By Bw Bh where B: "B = (Bx, By, Bw, Bh)" by (cases B)
  show ?thesis
    unfolding A B union_area_def prod.case
    by (simp only: inter_area_commute [of "(Ax, Ay, Aw, Ah)" "(Bx, By, Bw, Bh)"]
        add.commute [of "Aw * Ah" "Bw * Bh"])
qed

lemma iou_commute: "iou A B = iou B A"
  by (simp only: iou_formula inter_area_commute [of A B] union_area_commute [of A B])

lemma iou_same:
  assumes "0 < w" and "0 < h"
  shows "iou (x, y, w, h) (x, y, w, h) = 1"
proof -
  have "0 < w * h" using assms by simp
  moreover have "inter_area (x, y, w, h) (x, y, w, h) = w * h"
    using assms by (simp add: inter_area_def)
  moreover have "union_area (x, y, w, h) (x, y, w, h) = w * h"
    using assms by (simp add: union_area_def inter_area_def)
  ultimately show ?thesis using assms by (simp add: iou_formula mult_le_0_iff)
qed

lemma disjoint_inter_area:
  assumes "pixels A \<inter> pixels B = {}"
  shows "inter_area A B = 0"
proof (rule ccontr)
  obtain Ax Ay Aw Ah where A: "A = (Ax, Ay, Aw, Ah)" by (cases A)
  obtain Bx By Bw Bh where B: "B = (Bx, By, Bw, Bh)" by (cases B)
  define dx where "dx = min (Ax + Aw) (Bx + Bw) - max Ax Bx"
  define dy where "dy = min (Ay + Ah) (By + Bh) - max Ay By"
  assume "inter_area A B \<noteq> 0"
  then have "max 0 dx * max 0 dy \<noteq> 0"
    by (simp add: A B inter_area_def dx_def dy_def)
  then have "max 0 dx \<noteq> 0" and "max 0 dy \<noteq> 0" by simp_all
  then have "0 < dx" and "0 < dy" by (simp_all add: max_def split: if_splits)
  then have x: "max Ax Bx < min (Ax + Aw) (Bx + Bw)"
    and y: "max Ay By < min (Ay + Ah) (By + Bh)"
    by (simp_all add: dx_def dy_def)
  have "(max Ax Bx, max Ay By) \<in> pixels A"
    using x y by (simp add: A pixels_def)
  moreover have "(max Ax Bx, max Ay By) \<in> pixels B"
    using x y by (simp add: B pixels_def)
  ultimately show False using assms by blast
qed

text \<open>
  Claim C6. Both overlap functions are symmetric and agree with each other. A rectangle
  of positive width and height has overlap ratio 1 with itself, two boxes that share no
  pixel have ratio 0, and the ratio is 0 whenever the union area is not positive;
  otherwise it is the intersection area over the union area.
\<close>

theorem iou_properties:
  "iou A B = iou B A \<and>
   bbox_iou a b = bbox_iou b a \<and>
   bbox_iou a b = iou (tuple_of a) (tuple_of b) \<and>
   (0 < w \<and> 0 < h \<longrightarrow> iou (x, y, w, h) (x, y, w, h) = 1) \<and>
   (0 < box_w a \<and> 0 < box_h a \<longrightarrow> bbox_iou a a = 1) \<and>
   (pixels A \<inter> pixels B = {} \<longrightarrow> iou A B = 0) \<and>
   (union_area A B \<le> 0 \<longrightarrow> iou A B = 0) \<and>
   (0 < union_area A B \<longrightarrow>
      iou A B = real_of_int (inter_area A B) / real_of_int (union_area A B))"
proof -
  have c1: "iou A B = iou B A" by (rule iou_commute)
  have c2: "bbox_iou a b = bbox_iou b a"
    unfolding bbox_iou_iou by (rule iou_commute)
  have c3: "bbox_iou a b = iou (tuple_of a) (tuple_of b)" by (rule bbox_iou_iou)
  have c4: "0 < w \<and> 0 < h \<longrightarrow> iou (x, y, w, h) (x, y, w, h) = 1"
    using iou_same by blast
  have c5: "0 < box_w a \<and> 0 < box_h a \<longrightarrow> bbox_iou a a = 1"
    unfolding bbox_iou_iou tuple_of_def using iou_same by blast
  have c6: "pixels A \<inter> pixels B = {} \<longrightarrow> iou A B = 0"
    using disjoint_inter_area [of A B] by (simp add: iou_formula)
  have c7: "union_area A B \<le> 0 \<longrightarrow> iou A B = 0"
    by (simp add: iou_formula)
  have c8: "0 < union_area A B \<longrightarrow>
      iou A B = real_of_int (inter_area A B) / real_of_int (union_area A B)"
    by (simp add: iou_formula)
  show ?thesis by (intro conjI c1 c2 c3 c4 c5 c6 c7 c8)
qed

theorem iou_properties_witness:
  "iou (0, 0, 10, 10) (0, 0, 10, 10) = 1 \<and>
   pixels (0, 0, 10, 10) \<inter> pixels (20, 20, 5, 5) = {} \<and>
   iou (0, 0, 10, 10) (20, 20, 5, 5) = 0 \<and>
   union_area (3, 4, 0, 7) (3, 4, 0, 7) \<le> 0 \<and>
   iou (3, 4, 0, 7) (3, 4, 0, 7) = 0 \<and>
   0 < union_area (0, 0, 10, 10) (5, 0, 10, 10) \<and>
   iou (0, 0, 10, 10) (5, 0, 10, 10) = 1 / 3"
proof -
  have d: "pixels (0, 0, 10, 10) \<inter> pixels (20, 20, 5, 5) = {}"
    by (auto simp: pixels_def)
  have z: "union_area (3, 4, 0, 7) (3, 4, 0, 7) \<le> 0"
    by (simp add: union_area_def inter_area_def)
  have u: "0 < union_area (0, 0, 10, 10) (5, 0, 10, 10)"
    and i: "inter_area (0, 0, 10, 10) (5, 0, 10, 10) = 50"
    and v: "union_area (0, 0, 10, 10) (5, 0, 10, 10) = 150"
    by (simp_all add: union_area_def inter_area_def)
  show ?thesis
    using d z u i v
      iou_properties [where A = "(0, 0, 10, 10)" and B = "(20, 20, 5, 5)"
        and w = 10 and h = 10 and x = 0 and y = 0 and a = box_unit and b = box_unit]
      iou_properties [where A = "(3, 4, 0, 7)" and B = "(3, 4, 0, 7)"
        and w = 10 and h = 10 and x = 0 and y = 0 and a = box_unit and b = box_unit]
      iou_properties [where A = "(0, 0, 10, 10)" and B = "(5, 0, 10, 10)"
        and w = 10 and h = 10 and x = 0 and y = 0 and a = box_unit and b = box_unit]
    by simp
qed

section \<open>Properties of the resize step\<close>

text \<open>
  Claim C7. An image whose shorter side is at least the minimum and whose longer side is
  at most the maximum comes back from the resize step as it is; with the bounds 50 and
  16000 of the normalizer this is every image with both sides in that range.
\<close>

theorem resize_to_valid_unchanged:
  assumes "image_size img = (w, h)"
      and "min_side \<le> min w h" and "max w h \<le> max_side"
  shows "resize_to_valid img min_side max_side = Inr img"
proof -
  have lo: "\<not> min w h < min_side" and hi: "\<not> max w h > max_side"
    using assms by auto
  show ?thesis
    unfolding resize_to_valid_def assms(1) prod.case if_not_P [OF lo] if_not_P [OF hi]
    by simp
qed

theorem resize_to_valid_unchanged_witness:
  "image_size (Opened ''photo'' 640 480) = (640, 480) \<and> (50::int) \<le> min 640 480 \<and>
   max 640 480 \<le> (16000::int) \<and>
   resize_to_valid (Opened ''photo'' 640 480) 50 16000 = Inr (Opened ''photo'' 640 480)"
proof -
  have s: "image_size (Opened ''photo'' 640 480) = (640, 480)" by simp
  have lo: "(50::int) \<le> min 640 480" by simp
  have hi: "max 640 480 \<le> (16000::int)" by simp
  show ?thesis using s lo hi resize_to_valid_unchanged [OF s lo hi] by simp
qed

section \<open>Properties of classification\<close>

lemma rule_agent_total: "\<exists>out. rule_agent cap tob b = Inr out"
proof (cases "list_all (\<lambda>s. s = 0) (map snd (cat_scores_of (combined_text cap tob)))")
  case True
  from rule_agent_fallback_aux [OF refl True] show ?thesis by blast
next
  case False
  from rule_agent_keywords_aux [OF refl refl False] show ?thesis by blast
qed

lemma conf_of_top:
  "(if truthy_obj tob then get_confidence (the tob) else 0)
     = (case tob of None \<Rightarrow> 0 | Some ob \<Rightarrow> get_confidence ob)"
  by (auto simp: truthy_obj_def dict_nonempty_def get_confidence_def split: option.splits)

lemma visual_agent_decodes:
  assumes "visual_agent cl decode sid image_bytes n = Inr (vis, n')"
  shows "\<exists>W H. decode image_bytes = Some (W, H)"
  using assms
  by (cases "decode image_bytes")
     (auto simp: visual_agent_def analyze_image_bytes_def open_image_def)

lemma size_agent_total:
  assumes "decode image_bytes = Some (W, H)"
  shows "\<exists>sz. size_agent decode image_bytes tob = Inr sz"
  using assms by (simp add: size_agent_def Let_def split: option.splits)

text \<open>
  Claim C4. In every result that classification returns, exactly one of \<open>category\<close> and
  \<open>filtered\<close> is set, the top object is the selector's choice among the detected objects,
  and \<open>confidence\<close> is the confidence of the top object, or 0 when there is none.
\<close>

theorem classify_result_shape:
  assumes "classify_image_bytes cl decode ask sid image_bytes use_llm n = Inr r"
  shows "((res_category r = None) \<noteq> (res_filtered r = None)) \<and>
         res_top_object r = pick_best_object (res_objects r) \<and>
         res_confidence r = (case res_top_object r of None \<Rightarrow> 0 | Some ob \<Rightarrow> get_confidence ob)"
proof -
  from assms obtain vis n' where v: "visual_agent cl decode sid image_bytes n = Inr (vis, n')"
    by (auto simp: classify_image_bytes_def split: sum.splits)
  from assms v obtain sz where
    s: "size_agent decode image_bytes (pick_best_object (objects vis)) = Inr sz"
    by (auto simp: classify_image_bytes_def Let_def split: sum.splits)
  show ?thesis
  proof (cases "is_non_eee (combined_text (image_caption vis) (pick_best_object (objects vis)))
                  (cat_scores_of (combined_text (image_caption vis)
                     (pick_best_object (objects vis))))")
    case True
    with assms v s show ?thesis
      by (auto simp: classify_image_bytes_def Let_def conf_of_top)
  next
    case False
    obtain rc where rc: "rule_agent (image_caption vis) (pick_best_object (objects vis))
                           (size_bucket sz) = Inr rc"
      using rule_agent_total by blast
    with assms v s False show ?thesis
      by (auto simp: classify_image_bytes_def Let_def conf_of_top)
  qed
qed

lemma classify_returns:
  assumes "visual_agent cl decode sid image_bytes n = Inr (vis, n')"
  shows "\<exists>r. classify_image_bytes cl decode ask sid image_bytes use_llm n = Inr r"
proof -
  obtain W H where d: "decode image_bytes = Some (W, H)"
    using visual_agent_decodes [OF assms] by blast
  obtain sz where s: "size_agent decode image_bytes (pick_best_object (objects vis)) = Inr sz"
    using size_agent_total [of decode image_bytes W H] d by blast
  obtain rc where rc: "rule_agent (image_caption vis) (pick_best_object (objects vis))
                           (size_bucket sz) = Inr rc"
    using rule_agent_total by blast
  show ?thesis
    using assms s rc by (simp add: classify_image_bytes_def Let_def)
qed

theorem classify_result_shape_witness:
  "classify_image_bytes dummy_client decode_100 no_llm ''s1'' ''jpeg'' False 0
     = Inr (projr (classify_image_bytes dummy_client decode_100 no_llm ''s1'' ''jpeg'' False 0)) \<and>
   res_category (projr (classify_image_bytes dummy_client decode_100 no_llm ''s1'' ''jpeg'' False 0))
     = None \<and>
   res_filtered (projr (classify_image_bytes dummy_client decode_100 no_llm ''s1'' ''jpeg'' False 0))
     \<noteq> None \<and>
   res_confidence (projr (classify_image_bytes dummy_client decode_100 no_llm ''s1'' ''jpeg'' False 0))
     = 88 / 100"
proof -
  let ?c = "classify_image_bytes dummy_client decode_100 no_llm ''s1'' ''jpeg'' False 0"
  have "\<not> isl ?c" by code_simp
  then have r: "?c = Inr (projr ?c)" by simp
  have cat: "res_category (projr ?c) = None" by code_simp
  have top: "res_top_object (projr ?c) \<noteq> None" by code_simp
  have conf: "get_confidence (the (res_top_object (projr ?c))) = 88 / 100" by code_simp
  from classify_result_shape [OF r] cat top conf show ?thesis
    using r by (auto split: option.splits)
qed

section \<open>Provider failures in the detector\<close>

lemma crop_regions_length: "length (crop_regions img bs) \<le> length bs"
  by (induction bs) (auto simp: Let_def split: prod.splits)

lemma caption_loop_error:
  assumes "k < length obs" and "k < length crops"
      and "resize_to_valid (crops ! k) mn mx = Inr cv"
      and "cl (n + k) cv [CAPTION] = Inl e"
  shows "\<exists>e'. caption_loop cl sid mn mx idx obs crops n = Inl e'"
  using assms
proof (induction obs arbitrary: crops k idx n)
  case Nil
  then show ?case by simp
next
  case (Cons ob obs)
  from Cons.prems(2) obtain c cs where crops: "crops = c # cs" by (cases crops) auto
  show ?case
  proof (cases k)
    case 0
    with Cons.prems crops show ?thesis by simp
  next
    case (Suc j)
    have "\<exists>e'. caption_loop cl sid mn mx (Suc idx) obs cs (Suc n) = Inl e'"
      using Cons.prems crops Suc by (intro Cons.IH [of j]) auto
    then show ?thesis
      using crops by (auto simp: Let_def split: sum.splits)
  qed
qed

lemma caption_loop_first_error:
  assumes "k < length obs" and "k < length crops"
      and "\<forall>j<k. \<exists>cvj a. resize_to_valid (crops ! j) mn mx = Inr cvj
                         \<and> cl (n + j) cvj [CAPTION] = Inr a"
      and "resize_to_valid (crops ! k) mn mx = Inr cv"
      and "cl (n + k) cv [CAPTION] = Inl e"
  shows "caption_loop cl sid mn mx idx obs crops n = Inl e"
  using assms
proof (induction obs arbitrary: crops k idx n)
  case Nil
  then show ?case by simp
next
  case (Cons ob obs)
  from Cons.prems(2) obtain c cs where crops: "crops = c # cs" by (cases crops) auto
  show ?case
  proof (cases k)
    case 0
    with Cons.prems crops show ?thesis by simp
  next
    case (Suc j)
    from Cons.prems(3) Suc crops obtain cv0 a0
      where h: "resize_to_valid c mn mx = Inr cv0" "cl n cv0 [CAPTION] = Inr a0"
      by fastforce
    have "\<forall>i<j. \<exists>cvj a. resize_to_valid (cs ! i) mn mx = Inr cvj
                         \<and> cl (Suc n + i) cvj [CAPTION] = Inr a"
    proof (intro allI impI)
      fix i assume "i < j"
      then have "Suc i < k" using Suc by simp
      from Cons.prems(3) [rule_format, OF this] crops show
        "\<exists>cvj a. resize_to_valid (cs ! i) mn mx = Inr cvj \<and> cl (Suc n + i) cvj [CAPTION] = Inr a"
        by simp
    qed
    then have "caption_loop cl sid mn mx (Suc idx) obs cs (Suc n) = Inl e"
      using Cons.prems crops Suc by (intro Cons.IH [of j]) auto
    then show ?thesis
      using crops h by (simp add: Let_def)
  qed
qed

lemma analyze_caption_error:
  assumes o: "open_image decode image_bytes = Inr img0"
      and r: "resize_to_valid img0 min_side max_side = Inr pil_img"
      and p: "cl n pil_img [CAPTION, OBJECTS] = Inr an"
      and d: "dets = (case an_objects an of None \<Rightarrow> [] | Some ds \<Rightarrow> ds)"
      and c: "crops = crop_regions pil_img (map bounding_box dets)"
      and k: "k < length crops"
      and v: "resize_to_valid (crops ! k) min_side max_side = Inr cv"
      and f: "cl (Suc n + k) cv [CAPTION] = Inl e"
  shows "\<exists>e'. analyze_image_bytes cl decode sid image_bytes grid min_side max_side n = Inl e'"
proof -
  have "length crops \<le> length dets"
    using crop_regions_length [of pil_img "map bounding_box dets"] c by simp
  then have k': "k < length (map object_of_detection dets)" using k by simp
  obtain e' where "caption_loop cl sid min_side max_side 0 (map object_of_detection dets)
                     crops (Suc n) = Inl e'"
    using caption_loop_error [where n = "Suc n" and k = k and cl = cl, OF k' k v f] by blast
  then show ?thesis
    using o r p d c by (simp add: analyze_image_bytes_def Let_def)
qed

lemma analyze_first_caption_error:
  assumes o: "open_image decode image_bytes = Inr img0"
      and r: "resize_to_valid img0 min_side max_side = Inr pil_img"
      and p: "cl n pil_img [CAPTION, OBJECTS] = Inr an"
      and d: "dets = (case an_objects an of None \<Rightarrow> [] | Some ds \<Rightarrow> ds)"
      and c: "crops = crop_regions pil_img (map bounding_box dets)"
      and k: "k < length crops"
      and b: "\<forall>j<k. \<exists>cvj a. resize_to_valid (crops ! j) min_side max_side = Inr cvj
                          \<and> cl (Suc n + j) cvj [CAPTION] = Inr a"
      and v: "resize_to_valid (crops ! k) min_side max_side = Inr cv"
      and f: "cl (Suc n + k) cv [CAPTION] = Inl e"
  shows "analyze_image_bytes cl decode sid image_bytes grid min_side max_side n = Inl e"
proof -
  have "length crops \<le> length dets"
    using crop_regions_length [of pil_img "map bounding_box dets"] c by simp
  then have k': "k < length (map object_of_detection dets)" using k by simp
  have "caption_loop cl sid min_side max_side 0 (map object_of_detection dets)
          crops (Suc n) = Inl e"
    by (rule caption_loop_first_error [where n = "Suc n" and k = k and cl = cl and cv = cv,
          OF k' k b v f])
  then show ?thesis
    using o r p d c by (simp add: analyze_image_bytes_def Let_def)
qed

text \<open>
  Claim C8, as the code has it. The detector does not catch a failure of the provider:
  when the whole-image request succeeds, the caption requests for the crops before crop
  \<open>k\<close> succeed and the caption request for crop \<open>k\<close> raises the error \<open>e\<close>, the detector
  raises that same error \<open>e\<close> and returns no objects, and so does classification, which
  calls the detector with the bounds 50 and 16000.
\<close>

theorem crop_caption_error_propagates:
  assumes o: "open_image decode image_bytes = Inr img0"
      and r: "resize_to_valid img0 min_side max_side = Inr pil_img"
      and p: "cl n pil_img [CAPTION, OBJECTS] = Inr an"
      and d: "dets = (case an_objects an of None \<Rightarrow> [] | Some ds \<Rightarrow> ds)"
      and c: "crops = crop_regions pil_img (map bounding_box dets)"
      and k: "k < length crops"
      and b: "\<forall>j<k. \<exists>cvj a. resize_to_valid (crops ! j) min_side max_side = Inr cvj
                          \<and> cl (Suc n + j) cvj [CAPTION] = Inr a"
      and v: "resize_to_valid (crops ! k) min_side max_side = Inr cv"
      and f: "cl (Suc n + k) cv [CAPTION] = Inl e"
  shows "analyze_image_bytes cl decode sid image_bytes grid min_side max_side n = Inl e \<and>
         (min_side = 50 \<and> max_side = 16000 \<longrightarrow>
            classify_image_bytes cl decode ask sid image_bytes use_llm n = Inl e)"
proof -
  have a: "analyze_image_bytes cl decode sid image_bytes g min_side max_side n = Inl e" for g
    by (rule analyze_first_caption_error [OF o r p d c k b v f])
  show ?thesis
  proof (intro conjI impI)
    show "analyze_image_bytes cl decode sid image_bytes grid min_side max_side n = Inl e"
      by (rule a)
  next
    assume "min_side = 50 \<and> max_side = 16000"
    with a [of False] have
      "analyze_image_bytes cl decode sid image_bytes False 50 16000 n = Inl e" by simp
    then show "classify_image_bytes cl decode ask sid image_bytes use_llm n = Inl e"
      by (simp add: classify_image_bytes_def visual_agent_def)
  qed
qed

text \<open>
  Two detected objects: the caption request for the first crop succeeds, the one for the
  second crop fails, and its error is what the detector and classification return.
\<close>

theorem crop_caption_error_propagates_witness:
  "open_image decode_100 ''jpeg'' = Inr (Opened ''jpeg'' 100 100) \<and>
   resize_to_valid (Opened ''jpeg'' 100 100) 50 16000 = Inr (Opened ''jpeg'' 100 100) \<and>
   client_two 0 (Opened ''jpeg'' 100 100) [CAPTION, OBJECTS]
     = Inr \<lparr>an_caption = None,
            an_objects = Some [det_named ''laptop'', det_named ''mouse'']\<rparr> \<and>
   crop_regions (Opened ''jpeg'' 100 100)
       (map bounding_box [det_named ''laptop'', det_named ''mouse''])
     = [Cropped (Opened ''jpeg'' 100 100) 10 10 60 60,
        Cropped (Opened ''jpeg'' 100 100) 10 10 60 60] \<and>
   resize_to_valid (Cropped (Opened ''jpeg'' 100 100) 10 10 60 60) 50 16000
     = Inr (Cropped (Opened ''jpeg'' 100 100) 10 10 60 60) \<and>
   client_two 1 (Cropped (Opened ''jpeg'' 100 100) 10 10 60 60) [CAPTION]
     = Inr \<lparr>an_caption = Some ''a laptop'', an_objects = None\<rparr> \<and>
   client_two 2 (Cropped (Opened ''jpeg'' 100 100) 10 10 60 60) [CAPTION]
     = Inl (ProviderError ''caption request failed'') \<and>
   analyze_image_bytes client_two decode_100 ''s1'' ''jpeg'' True 50 16000 0
     = Inl (ProviderError ''caption request failed'') \<and>
   classify_image_bytes client_two decode_100 no_llm ''s1'' ''jpeg'' False 0
     = Inl (ProviderError ''caption request failed'')"
proof -
  let ?img = "Opened ''jpeg'' 100 100"
  let ?crop = "Cropped ?img 10 10 60 60"
  let ?dets = "[det_named ''laptop'', det_named ''mouse'']"
  let ?an = "\<lparr>an_caption = None, an_objects = Some ?dets\<rparr>"
  let ?cap = "\<lparr>an_caption = Some ''a laptop'', an_objects = None\<rparr>"
  have o: "open_image decode_100 ''jpeg'' = Inr ?img"
    by (simp add: open_image_def decode_100_def)
  have r: "resize_to_valid ?img 50 16000 = Inr ?img"
    by (simp add: resize_to_valid_def)
  have p: "client_two 0 ?img [CAPTION, OBJECTS] = Inr ?an"
    by (simp add: client_two_def)
  have d: "?dets = (case an_objects ?an of None \<Rightarrow> [] | Some ds \<Rightarrow> ds)"
    by simp
  have c: "[?crop, ?crop] = crop_regions ?img (map bounding_box ?dets)"
    by (simp add: det_named_def Let_def)
  have k: "1 < length [?crop, ?crop]" by simp
  have rc: "resize_to_valid ?crop 50 16000 = Inr ?crop"
    by (simp add: resize_to_valid_def)
  have s: "client_two 1 ?crop [CAPTION] = Inr ?cap"
    by (simp add: client_two_def)
  have b: "\<forall>j<1. \<exists>cvj a. resize_to_valid ([?crop, ?crop] ! j) 50 16000 = Inr cvj
                       \<and> client_two (Suc 0 + j) cvj [CAPTION] = Inr a"
    using rc s by simp
  have v: "resize_to_valid ([?crop, ?crop] ! 1) 50 16000 = Inr ?crop"
    using rc by simp
  have f: "client_two (Suc 0 + 1) ?crop [CAPTION]
             = Inl (ProviderError ''caption request failed'')"
    by (simp add: client_two_def crop_failure_def)
  have f2: "client_two 2 ?crop [CAPTION] = Inl (ProviderError ''caption request failed'')"
    by (simp add: client_two_def crop_failure_def)
  from crop_caption_error_propagates [OF o r p d c k b v f, of "''s1''" True no_llm False]
  show ?thesis using o r p c rc s f2 by simp
qed

text \<open>
  The statement that such a failure is absorbed does not hold: with one detected object
  and a failing caption request, neither the detector nor classification returns a
  result.
\<close>

theorem crop_caption_error_counterexample:
  "analyze_image_bytes (client_one ''laptop'' crop_failure) decode_100 ''s1'' ''jpeg''
     True 50 16000 0 = Inl (ProviderError ''caption request failed'') \<and>
   classify_image_bytes (client_one ''laptop'' crop_failure) decode_100 no_llm ''s1'' ''jpeg''
     False 0 = Inl (ProviderError ''caption request failed'')"
  by code_simp

section \<open>The end-to-end example\<close>

text \<open>
  The keyword table of category 1 holds \<open>refrigerador\<close>, \<open>geladeira\<close> and \<open>fridge\<close>, and
  each of them alone scores category 1; \<open>refrigerator\<close> is in no table and no keyword
  occurs in it.
\<close>

lemma scores_refrigerador:
  "cat_scores_of ''refrigerador'' = [(1, 1), (2, 0), (3, 0), (4, 0), (5, 0), (6, 0)]"
  by code_simp

lemma scores_fridge:
  "cat_scores_of ''fridge'' = [(1, 1), (2, 0), (3, 0), (4, 0), (5, 0), (6, 0)]"
  by code_simp

lemma refrigerator_not_keyword:
  "''refrigerator'' \<notin> set (concat (map snd KEYWORDS)) \<and>
   ''refrigerador'' \<in> set KW1 \<and> ''fridge'' \<in> set KW1"
  by code_simp

lemma rule_agent_refrigerador:
  assumes "combined_text cap tob = ''refrigerador''"
  shows "rule_agent cap tob b =
           Inr \<lparr>category_id = 1, category_name = ''Equipamentos de troca de temperatura'',
                 score = 1,
                 evidence = Keywords [(1, 1), (2, 0), (3, 0), (4, 0), (5, 0), (6, 0)]
                              ''refrigerador'' b\<rparr>"
  unfolding rule_agent_def Let_def assms scores_refrigerador
  by (simp add: pref_def category_name_of_def CATEGORIES_def)

text \<open>
  When the detector returns a sole object named \<open>refrigerador\<close> with confidence 0.9 and no
  caption, and there is no scene caption, classification yields category 1, confidence
  0.9 and evidence source \<open>keywords\<close>.
\<close>

lemma refrigerador_classified:
  assumes v: "visual_agent cl decode sid image_bytes n = Inr (vis, n')"
      and one: "objects vis = [ob]"
      and nm: "obj_name ob = Some ''refrigerador''"
      and cf: "obj_confidence ob = Some (9 / 10)"
      and nc: "\<not> truthy (obj_caption ob)"
      and ns: "\<not> truthy (image_caption vis)"
  shows "\<exists>r. classify_image_bytes cl decode ask sid image_bytes False n = Inr r \<and>
              res_category r = Some (1, ''Equipamentos de troca de temperatura'') \<and>
              res_confidence r = 9 / 10 \<and>
              map_option evidence_source (res_explanation r) = Some ''keywords''"
proof -
  have top: "pick_best_object (objects vis) = Some ob"
    by (simp add: one pick_best_object_def)
  have tr: "truthy_obj (Some ob)"
    by (simp add: truthy_obj_def dict_nonempty_def nm)
  have ct: "combined_text (image_caption vis) (Some ob) = ''refrigerador''"
    using tr nm nc ns by (simp add: combined_text_def truthy_def)
  have ne: "\<not> is_non_eee ''refrigerador'' (cat_scores_of ''refrigerador'')"
    by (simp add: is_non_eee_def scores_refrigerador)
  obtain W H where d: "decode image_bytes = Some (W, H)"
    using visual_agent_decodes [OF v] by blast
  obtain sz where s: "size_agent decode image_bytes (Some ob) = Inr sz"
    using size_agent_total [of decode image_bytes W H] d by blast
  have gc: "get_confidence ob = 9 / 10" by (simp add: get_confidence_def cf)
  show ?thesis
    using v top tr ct ne s gc rule_agent_refrigerador [OF ct, of "size_bucket sz"]
    by (simp add: classify_image_bytes_def Let_def)
qed

lemma refrigerador_classified_example:
  "visual_agent (client_one ''refrigerador'' no_caption) decode_100 ''s1'' ''jpeg'' 0
     = Inr (fst (projr (visual_agent (client_one ''refrigerador'' no_caption) decode_100
                  ''s1'' ''jpeg'' 0)), 2) \<and>
   (\<exists>r. classify_image_bytes (client_one ''refrigerador'' no_caption) decode_100 no_llm
           ''s1'' ''jpeg'' False 0 = Inr r \<and>
        res_category r = Some (1, ''Equipamentos de troca de temperatura'') \<and>
        res_confidence r = 9 / 10 \<and>
        map_option evidence_source (res_explanation r) = Some ''keywords'')"
proof -
  let ?va = "visual_agent (client_one ''refrigerador'' no_caption) decode_100 ''s1'' ''jpeg'' 0"
  let ?ob = "\<lparr>obj_name = Some ''refrigerador'', obj_confidence = Some (9 / 10),
         obj_bbox = Some \<lparr>box_x = 10, box_y = 10, box_w = 50, box_h = 50\<rparr>,
         obj_crop_url = Some ''/static/crops/s1/obj_000.jpg'', obj_caption = None\<rparr>"
  have "\<not> isl ?va" by code_simp
  moreover have "snd (projr ?va) = 2" by code_simp
  ultimately have v: "?va = Inr (fst (projr ?va), 2)"
    by (metis sum.collapse(2) prod.collapse)
  have one: "objects (fst (projr ?va)) = [?ob]" by code_simp
  have ns: "\<not> truthy (image_caption (fst (projr ?va)))" by code_simp
  have nm: "obj_name ?ob = Some ''refrigerador''" by simp
  have cf: "obj_confidence ?ob = Some (9 / 10)" by simp
  have nc: "\<not> truthy (obj_caption ?ob)" by (simp add: truthy_def)
  from refrigerador_classified [OF v one nm cf nc ns, of no_llm] v show ?thesis by blast
qed

text \<open>
  Claim C9, as the code computes it. The detector returns a sole object named
  \<open>refrigerator\<close> with confidence 0.9 and the box (10, 10, 50, 50) in a 100 by 100 image,
  without a caption, and there is no scene caption. All six keyword scores are 0, so the
  object is classified by the size fallback: category 4 with evidence source
  \<open>size_fallback\<close> and confidence 0.9, where category 1 with evidence source \<open>keywords\<close>
  is expected.
\<close>

theorem refrigerator_size_fallback:
  "vres_objects (fst (projr (analyze_image_bytes (client_one ''refrigerator'' no_caption)
       decode_100 ''s1'' ''jpeg'' False 50 16000 0)))
     = [\<lparr>obj_name = Some ''refrigerator'', obj_confidence = Some (9 / 10),
         obj_bbox = Some \<lparr>box_x = 10, box_y = 10, box_w = 50, box_h = 50\<rparr>,
         obj_crop_url = Some ''/static/crops/s1/obj_000.jpg'', obj_caption = None\<rparr>] \<and>
   map snd (cat_scores_of ''refrigerator'') = [0, 0, 0, 0, 0, 0] \<and>
   \<not> isl (classify_image_bytes (client_one ''refrigerator'' no_caption) decode_100 no_llm
           ''s1'' ''jpeg'' False 0) \<and>
   res_category (projr (classify_image_bytes (client_one ''refrigerator'' no_caption)
       decode_100 no_llm ''s1'' ''jpeg'' False 0))
     = Some (4, ''Grandes (dimens'' @ [CHR 0xE3] @ ''o > 50cm)'') \<and>
   res_confidence (projr (classify_image_bytes (client_one ''refrigerator'' no_caption)
       decode_100 no_llm ''s1'' ''jpeg'' False 0)) = 9 / 10 \<and>
   res_explanation (projr (classify_image_bytes (client_one ''refrigerator'' no_caption)
       decode_100 no_llm ''s1'' ''jpeg'' False 0))
     = Some (SizeFallback (Some ''grande'') ''refrigerator'') \<and>
   map_option evidence_source (res_explanation (projr (classify_image_bytes
       (client_one ''refrigerator'' no_caption) decode_100 no_llm ''s1'' ''jpeg'' False 0)))
     = Some ''size_fallback''"
  by code_simp

end
